theory Spec2Isabelle
  imports Complex_Main
begin

section \<open>Sigma schedules of modules/sd_schedulers.py\<close>

text \<open>
  The module computes noise-level schedules with torch and numpy on floating-point
  numbers. The embedding below works over the real numbers: a float is read as the real
  it denotes, rounding (also the final conversion to a 32-bit tensor) is left out, and
  NaN and the infinities have no counterpart. Step counts are natural numbers. The
  argument \<open>device\<close> only says where the tensor is stored and is left out.
  Exceptions of the source are values of the type \<open>error\<close>.
\<close>

datatype error = ValueError | ZeroDivisionError | IndexError | TypeError | OverflowError

subsection \<open>The registry\<close>

text \<open>
  The field \<open>function\<close> of the dataclass holds a function reference; the embedding
  names each referenced function by a constructor. \<open>None\<close> is Python's None.
\<close>

datatype generator =
    Sampling_get_sigmas_karras
  | Sampling_get_sigmas_exponential
  | Sampling_get_sigmas_polyexponential
  | Get_sigmas_sinusoidal_sf
  | Get_sigmas_invcosinusoidal_sf
  | Get_sigmas_react_cosinusoidal_dynsf
  | Uniform
  | Sgm_uniform
  | Kl_optimal
  | Simple_scheduler
  | Normal_scheduler
  | Ddim_scheduler
  | Get_align_your_steps_sigmas
  | Get_sigmas_ays_custom
  | Beta_scheduler
  | Turbo_scheduler
  | Cosine_scheduler
  | Cosexpblend_scheduler
  | Phi_scheduler
  | Get_sigmas_laplace
  | Get_sigmas_karras_dynamic
  | Get_align_your_steps_sigmas_GITS
  | Ays_11_sigmas
  | Ays_32_sigmas

record Scheduler =
  name :: string
  label :: string
  func :: "generator option"
  default_rho :: real
  need_inner_model :: bool
  aliases :: "string list option"

text \<open>The constructor call with the defaults of the dataclass.\<close>

definition mk_Scheduler :: "string \<Rightarrow> string \<Rightarrow> generator option \<Rightarrow> Scheduler" where
  "mk_Scheduler n l f =
     \<lparr>name = n, label = l, func = f, default_rho = - 1, need_inner_model = False,
      aliases = None\<rparr>"

definition schedulers :: "Scheduler list" where
  "schedulers =
    [mk_Scheduler ''automatic'' ''Automatic'' None,
     (mk_Scheduler ''karras'' ''Karras'' (Some Sampling_get_sigmas_karras))
       \<lparr>default_rho := 7\<rparr>,
     mk_Scheduler ''exponential'' ''Exponential'' (Some Sampling_get_sigmas_exponential),
     (mk_Scheduler ''polyexponential'' ''Polyexponential''
        (Some Sampling_get_sigmas_polyexponential)) \<lparr>default_rho := 1\<rparr>,
     mk_Scheduler ''sinusoidal_sf'' ''Sinusoidal SF'' (Some Get_sigmas_sinusoidal_sf),
     mk_Scheduler ''invcosinusoidal_sf'' ''Invcosinusoidal SF''
       (Some Get_sigmas_invcosinusoidal_sf),
     mk_Scheduler ''react_cosinusoidal_dynsf'' ''React Cosinusoidal DynSF''
       (Some Get_sigmas_react_cosinusoidal_dynsf),
     (mk_Scheduler ''uniform'' ''Uniform'' (Some Uniform)) \<lparr>need_inner_model := True\<rparr>,
     (mk_Scheduler ''sgm_uniform'' ''SGM Uniform'' (Some Sgm_uniform))
       \<lparr>need_inner_model := True, aliases := Some [''SGMUniform'']\<rparr>,
     mk_Scheduler ''kl_optimal'' ''KL Optimal'' (Some Kl_optimal),
     (mk_Scheduler ''simple'' ''Simple'' (Some Simple_scheduler))
       \<lparr>need_inner_model := True\<rparr>,
     (mk_Scheduler ''normal'' ''Normal'' (Some Normal_scheduler))
       \<lparr>need_inner_model := True\<rparr>,
     (mk_Scheduler ''ddim'' ''DDIM'' (Some Ddim_scheduler)) \<lparr>need_inner_model := True\<rparr>,
     mk_Scheduler ''align_your_steps'' ''Align Your Steps'' (Some Get_align_your_steps_sigmas),
     mk_Scheduler ''align_your_steps_custom'' ''Align Your Steps Custom''
       (Some Get_sigmas_ays_custom),
     (mk_Scheduler ''beta'' ''Beta'' (Some Beta_scheduler)) \<lparr>need_inner_model := True\<rparr>,
     (mk_Scheduler ''turbo'' ''Turbo'' (Some Turbo_scheduler)) \<lparr>need_inner_model := True\<rparr>,
     mk_Scheduler ''cosine'' ''Cosine'' (Some Cosine_scheduler),
     mk_Scheduler ''cosine-exponential blend'' ''Cosine-exponential Blend''
       (Some Cosexpblend_scheduler),
     mk_Scheduler ''phi'' ''Phi'' (Some Phi_scheduler),
     mk_Scheduler ''laplace'' ''Laplace'' (Some Get_sigmas_laplace),
     mk_Scheduler ''karras dynamic'' ''Karras Dynamic'' (Some Get_sigmas_karras_dynamic),
     mk_Scheduler ''align_your_steps_GITS'' ''Align Your Steps GITS''
       (Some Get_align_your_steps_sigmas_GITS),
     mk_Scheduler ''align_your_steps_11'' ''Align Your Steps 11'' (Some Ays_11_sigmas),
     mk_Scheduler ''align_your_steps_32'' ''Align Your Steps 32'' (Some Ays_32_sigmas)]"

text \<open>
  A dict comprehension \<open>{k(x): x for x in xs}\<close> stores the entries in order, a later
  entry replacing an earlier one with the same key; \<open>{**a, **b}\<close> lets the entries of
  \<open>b\<close> replace those of \<open>a\<close>. Neither raises on a repeated key.
\<close>

fun dict_of :: "('k \<times> 'v) list \<Rightarrow> ('k \<rightharpoonup> 'v) \<Rightarrow> ('k \<rightharpoonup> 'v)" where
  "dict_of [] m = m"
| "dict_of ((k, v) # kvs) m = dict_of kvs (m(k \<mapsto> v))"

definition schedulers_map_of :: "Scheduler list \<Rightarrow> (string \<rightharpoonup> Scheduler)" where
  "schedulers_map_of xs =
     dict_of (map (\<lambda>x. (name x, x)) xs) Map.empty ++ dict_of (map (\<lambda>x. (label x, x)) xs) Map.empty"

definition schedulers_map :: "string \<rightharpoonup> Scheduler" where
  "schedulers_map = schedulers_map_of schedulers"

subsection \<open>Arithmetic and array helpers\<close>

definition and_then :: "error + 'a \<Rightarrow> ('a \<Rightarrow> error + 'b) \<Rightarrow> error + 'b" where
  "and_then r f = (case r of Inl e \<Rightarrow> Inl e | Inr v \<Rightarrow> f v)"

text \<open>
  The value of \<open>x ** y\<close> on floats where it is a real number: a positive base, a zero
  base with a non-negative exponent, or a negative base with an integral exponent.
  Elsewhere torch's elementwise power gives NaN or an infinity, which the reals do not
  have; the properties below keep the bases of such powers positive.
\<close>

definition float_pow :: "real \<Rightarrow> real \<Rightarrow> real" where
  "float_pow x y =
     (if y = 0 then 1
      else if x = 0 then 0
      else if 0 < x then x powr y
      else (if even \<lfloor>y\<rfloor> then 1 else - 1) * (\<bar>x\<bar> powr y))"

text \<open>The largest finite float (a double).\<close>

definition float_max :: real where
  "float_max = (2 - 1 / 2 ^ 52) * 2 ^ 1023"

text \<open>
  Python's \<open>**\<close> on two floats raises ZeroDivisionError for \<open>0.0\<close> to a negative
  power, returns a complex number for a negative base with a fractional exponent, and
  raises OverflowError when the power of two finite floats is beyond the range of the
  floats. Every place of this module that computes such a power stores it in a float
  tensor, which rejects a complex value (recorded here as TypeError). The range test
  is made on the exact value, since rounding is not modelled; an argument beyond
  \<open>float_max\<close> stands for no finite float, and an infinite float raises nothing.
\<close>

definition py_pow :: "real \<Rightarrow> real \<Rightarrow> error + real" where
  "py_pow x y =
     (if x = 0 \<and> y < 0 then Inl ZeroDivisionError
      else if x < 0 \<and> y \<noteq> of_int \<lfloor>y\<rfloor> then Inl TypeError
      else if \<bar>x\<bar> \<le> float_max \<and> \<bar>y\<bar> \<le> float_max \<and> float_max < \<bar>float_pow x y\<bar>
        then Inl OverflowError
      else Inr (float_pow x y))"

text \<open>
  \<open>torch.linspace(a, b, n)\<close> and \<open>np.linspace(a, b, n)\<close>: \<open>n\<close> evenly spaced points
  from \<open>a\<close> to \<open>b\<close>, both included; a single point is \<open>a\<close>.
\<close>

definition linspace :: "real \<Rightarrow> real \<Rightarrow> nat \<Rightarrow> real list" where
  "linspace a b n =
     (if n = 1 then [a] else map (\<lambda>i. a + real i * ((b - a) / (real n - 1))) [0..<n])"

text \<open>\<open>np.linspace(a, b, n, endpoint=False)\<close>.\<close>

definition linspace_open :: "real \<Rightarrow> real \<Rightarrow> nat \<Rightarrow> real list" where
  "linspace_open a b n = map (\<lambda>i. a + real i * ((b - a) / real n)) [0..<n]"



text \<open>\<open>np.rint\<close>: the nearest integer, a tie going to the even neighbour.\<close>

definition rint :: "real \<Rightarrow> int" where
  "rint x =
     (let f = \<lfloor>x\<rfloor>; d = x - of_int f
      in if d < 1 / 2 then f else if 1 / 2 < d then f + 1 else if even f then f else f + 1)"

text \<open>Indexing a tensor with a Python integer: a negative index counts from the end.\<close>

definition py_index :: "'a list \<Rightarrow> int \<Rightarrow> error + 'a" where
  "py_index xs i =
     (if 0 \<le> i \<and> i < int (length xs) then Inr (xs ! nat i)
      else if i < 0 \<and> - int (length xs) \<le> i then Inr (xs ! nat (int (length xs) + i))
      else Inl IndexError)"

subsection \<open>Linear interpolation (np.interp)\<close>

text \<open>
  \<open>np.interp(x, xp, fp)\<close> looks up, for each \<open>x\<close>, the index \<open>j\<close> with
  \<open>xp[j] \<le> x < xp[j+1]\<close> and returns \<open>slope * (x - xp[j]) + fp[j]\<close>; it returns
  \<open>fp[j]\<close> when \<open>x = xp[j]\<close> or \<open>j\<close> is the last index, \<open>fp[0]\<close> left of the
  sample points and \<open>fp[-1]\<close> right of them. It raises ValueError on an empty \<open>xp\<close>
  and when \<open>fp\<close> and \<open>xp\<close> differ in length. The sample points are assumed increasing
  (numpy does not check it); here they always come from \<open>linspace 0 1\<close>, and the scan
  below from the left finds the same index as numpy's binary search.
\<close>

fun interp_scan :: "real \<Rightarrow> real list \<Rightarrow> real list \<Rightarrow> real" where
  "interp_scan x (x0 # x1 # xp) (y0 # y1 # fp) =
     (if x < x1 then
        (if x = x0 then y0 else (y1 - y0) / (x1 - x0) * (x - x0) + y0)
      else interp_scan x (x1 # xp) (y1 # fp))"
| "interp_scan x [x0] [y0] = y0"
| "interp_scan x xp fp = 0"

definition interp1 :: "real \<Rightarrow> real list \<Rightarrow> real list \<Rightarrow> real" where
  "interp1 x xp fp = (if x < hd xp then hd fp else interp_scan x xp fp)"

definition np_interp :: "real list \<Rightarrow> real list \<Rightarrow> real list \<Rightarrow> error + real list" where
  "np_interp xs xp fp =
     (if xp = [] then Inl ValueError
      else if length fp \<noteq> length xp then Inl ValueError
      else Inr (map (\<lambda>x. interp1 x xp fp) xs))"

subsection \<open>Configuration\<close>

text \<open>The options of \<open>shared.opts\<close> read by the generators below.\<close>

record opts =
  karras_rho :: real
  exponential_shrink_factor :: real
  polyexponential_rho :: real
  sinusoidal_sf_factor :: real
  invcosinusoidal_sf_factor :: real
  react_cosinusoidal_dynsf_factor :: real
  ays_custom_sigmas :: string
  beta_dist_alpha :: real
  beta_dist_beta :: real
  cosine_sf_factor :: real
  cosexpblend_exp_decay :: real
  phi_power :: real
  laplace_mu :: real
  laplace_beta :: real
  karras_dynamic_rho :: real

subsection \<open>Closed-form generators\<close>







definition get_sigmas_sinusoidal_sf :: "opts \<Rightarrow> nat \<Rightarrow> real \<Rightarrow> real \<Rightarrow> real list" where
  "get_sigmas_sinusoidal_sf opt n sigma_min sigma_max =
     (let sf = sinusoidal_sf_factor opt;
          x = linspace 0 1 n;
          sigmas = map (\<lambda>x. (sigma_min + (sigma_max - sigma_min) * (1 - sin (pi / 2 * x)))
                              / sigma_max) x;
          sigmas = map (\<lambda>s. float_pow s sf) sigmas;
          sigmas = map (\<lambda>s. s * sigma_max) sigmas
      in sigmas)"

definition get_sigmas_invcosinusoidal_sf :: "opts \<Rightarrow> nat \<Rightarrow> real \<Rightarrow> real \<Rightarrow> real list" where
  "get_sigmas_invcosinusoidal_sf opt n sigma_min sigma_max =
     (let sf = invcosinusoidal_sf_factor opt;
          x = linspace 0 1 n;
          sigmas = map (\<lambda>x. (sigma_min + (sigma_max - sigma_min) * (0.5 * (cos (x * pi) + 1)))
                              / sigma_max) x;
          sigmas = map (\<lambda>s. float_pow s sf) sigmas;
          sigmas = map (\<lambda>s. s * sigma_max) sigmas
      in sigmas)"

definition get_sigmas_react_cosinusoidal_dynsf :: "opts \<Rightarrow> nat \<Rightarrow> real \<Rightarrow> real \<Rightarrow> real list" where
  "get_sigmas_react_cosinusoidal_dynsf opt n sigma_min sigma_max =
     (let sf = react_cosinusoidal_dynsf_factor opt;
          x = linspace 0 1 n;
          sigmas = map (\<lambda>x. (sigma_min + (sigma_max - sigma_min) * cos (x * (pi / 2)))
                              / sigma_max) x;
          sigmas = map2 (\<lambda>s x. float_pow s (sf * (real n * x / real n))) sigmas x;
          sigmas = map (\<lambda>s. s * sigma_max) sigmas
      in sigmas)"


text \<open>
  In the cosine generators \<open>p = x/(n-1)\<close> lies between 0 and 1, so \<open>p**0.5\<close> cannot
  fail; \<open>sigma_max ** 0.5\<close> is complex for a negative \<open>sigma_max\<close>.
\<close>

definition cosine_scheduler :: "opts \<Rightarrow> nat \<Rightarrow> real \<Rightarrow> real \<Rightarrow> error + real list" where
  "cosine_scheduler opt n sigma_min sigma_max =
     (let sf = cosine_sf_factor opt in
      and_then
        (if n = 1 then and_then (py_pow sigma_max 0.5) (\<lambda>v. Inr [v])
         else Inr (map (\<lambda>x.
                let p = real x / (real n - 1);
                    C = sigma_min + 0.5 * (sigma_max - sigma_min)
                          * (1 - cos (pi * (1 - float_pow p 0.5)))
                in C * sf) [0..<n]))
        (\<lambda>sigmas. Inr (sigmas @ [0])))"

text \<open>The loop of \<open>cosexpblend_scheduler\<close>, with the running value \<open>E\<close> as an argument.\<close>

fun cosexpblend_loop ::
  "nat \<Rightarrow> real \<Rightarrow> real \<Rightarrow> real \<Rightarrow> nat list \<Rightarrow> real \<Rightarrow> real list" where
  "cosexpblend_loop n sigma_min sigma_max K [] E = []"
| "cosexpblend_loop n sigma_min sigma_max K (x # xs) E =
     (let p = real x / (real n - 1);
          C = sigma_min + 0.5 * (sigma_max - sigma_min)
                * (1 - cos (pi * (1 - float_pow p 0.5)))
      in (C + p * (E - C)) # cosexpblend_loop n sigma_min sigma_max K xs (E * K))"

definition cosexpblend_scheduler :: "opts \<Rightarrow> nat \<Rightarrow> real \<Rightarrow> real \<Rightarrow> error + real list" where
  "cosexpblend_scheduler opt n sigma_min sigma_max =
     (let decay = cosexpblend_exp_decay opt in
      and_then
        (if n = 1 then and_then (py_pow sigma_max 0.5) (\<lambda>v. Inr [v])
         else and_then (py_pow decay (1 / (real n - 1))) (\<lambda>K.
                Inr (cosexpblend_loop n sigma_min sigma_max K [0..<n] sigma_max)))
        (\<lambda>sigmas. Inr (sigmas @ [0])))"

text \<open>
  In \<open>phi_scheduler\<close> the power \<open>phi**power\<close> is computed anew in every pass of the
  loop and has the same value each time, so it fails in the first pass or never; with no
  pass (\<open>n = 0\<close>) it is not computed. The base \<open>1 - x/(n-1)\<close> lies between 0 and 1 and
  its exponent is positive, so that power cannot fail; nor can \<open>5**0.5\<close>.
\<close>

definition phi_scheduler :: "opts \<Rightarrow> nat \<Rightarrow> real \<Rightarrow> real \<Rightarrow> error + real list" where
  "phi_scheduler opt n sigma_min sigma_max =
     (let power = phi_power opt in
      and_then
        (if n = 1 then and_then (py_pow sigma_max 0.5) (\<lambda>v. Inr [v])
         else
           (let phi = (1 + float_pow 5 0.5) / 2
            in if n = 0 then Inr []
               else and_then (py_pow phi power) (\<lambda>phi_pow.
                 Inr (map (\<lambda>x. sigma_min + (sigma_max - sigma_min)
                        * float_pow (1 - real x / (real n - 1)) phi_pow) [0..<n]))))
        (\<lambda>sigmas. Inr (sigmas @ [0])))"



subsection \<open>The align-your-steps family\<close>

text \<open>
  Each of the four table-based generators nests its own copy of \<open>loglinear_interp\<close>;
  the copies are the same text, so one definition stands for them. \<open>np.log\<close> of a
  non-positive entry gives NaN or an infinity, which the reals do not have: the
  definition speaks about positive tables.
\<close>

definition loglinear_interp :: "real list \<Rightarrow> nat \<Rightarrow> error + real list" where
  "loglinear_interp t_steps num_steps =
     (let xs = linspace 0 1 (length t_steps);
          ys = map ln (rev t_steps);
          new_xs = linspace 0 1 num_steps
      in and_then (np_interp new_xs xs ys) (\<lambda>new_ys.
           let interped_ys = rev (map exp new_ys) in Inr interped_ys))"

text \<open>The tables of \<open>get_align_your_steps_sigmas\<close> and of \<open>ays_11_sigmas\<close>.\<close>

definition ays_sigmas :: "bool \<Rightarrow> real list" where
  "ays_sigmas is_sdxl =
     (if is_sdxl then
        [14.615, 6.315, 3.771, 2.181, 1.342, 0.862, 0.555, 0.38, 0.234, 0.113, 0.029]
      else
        [14.615, 6.475, 3.861, 2.697, 1.886, 1.396, 0.963, 0.652, 0.399, 0.152, 0.029])"

definition gits_sigmas :: "bool \<Rightarrow> real list" where
  "gits_sigmas is_sdxl =
     (if is_sdxl then
        [14.615, 4.734, 2.567, 1.529, 0.987, 0.652, 0.418, 0.268, 0.179, 0.127, 0.029]
      else
        [14.615, 4.617, 2.507, 1.236, 0.702, 0.402, 0.24, 0.156, 0.104, 0.094, 0.029])"

definition ays_32_table :: "bool \<Rightarrow> real list" where
  "ays_32_table is_sdxl =
     (if is_sdxl then
        [14.615, 11.1491618, 8.50522127, 6.48827151, 5.43707402, 4.60398619, 3.89854704,
         3.27407457, 2.74396527, 2.29968659, 1.95448514, 1.67108715, 1.42878152,
         1.23181009, 1.06789649, 0.92579443, 0.80290886, 0.69660121, 0.60436903,
         0.52852552, 0.46773344, 0.41393379, 0.36258186, 0.31008517, 0.26518925,
         0.22326461, 0.17653877, 0.13959192, 0.10587381, 0.05519369, 0.02877334, 0.015]
      else
        [14.615, 11.23951352, 8.64363081, 6.64729424, 5.57250862, 4.71648546,
         3.99196065, 3.5195609, 3.13490466, 2.79228788, 2.48773628, 2.21663865,
         1.97508351, 1.7793172, 1.61475335, 1.46540953, 1.314849, 1.16642497,
         1.03475547, 0.91573744, 0.80748169, 0.71202361, 0.621739, 0.53065202,
         0.4529096, 0.37491455, 0.27461819, 0.2011529, 0.14105873, 0.06682881,
         0.03166121, 0.015])"

text \<open>
  The flag \<open>shared.sd_model.is_sdxl\<close> is the first argument; \<open>sigma_min\<close> and
  \<open>sigma_max\<close> are accepted and not used, as in the source.
\<close>

definition get_align_your_steps_sigmas :: "bool \<Rightarrow> nat \<Rightarrow> real \<Rightarrow> real \<Rightarrow> error + real list" where
  "get_align_your_steps_sigmas is_sdxl n sigma_min sigma_max =
     (let sigmas = ays_sigmas is_sdxl
      in if n \<noteq> length sigmas
         then and_then (loglinear_interp sigmas n) (\<lambda>s. Inr (s @ [0]))
         else Inr (sigmas @ [0]))"

definition get_align_your_steps_sigmas_GITS ::
  "bool \<Rightarrow> nat \<Rightarrow> real \<Rightarrow> real \<Rightarrow> error + real list" where
  "get_align_your_steps_sigmas_GITS is_sdxl n sigma_min sigma_max =
     (let sigmas = gits_sigmas is_sdxl
      in if n \<noteq> length sigmas
         then and_then (loglinear_interp sigmas n) (\<lambda>s. Inr (s @ [0]))
         else Inr (sigmas @ [0]))"

definition ays_11_sigmas :: "bool \<Rightarrow> nat \<Rightarrow> real \<Rightarrow> real \<Rightarrow> error + real list" where
  "ays_11_sigmas is_sdxl n sigma_min sigma_max =
     (let sigmas = ays_sigmas is_sdxl
      in if n \<noteq> length sigmas
         then and_then (loglinear_interp sigmas n) (\<lambda>s. Inr (s @ [0]))
         else Inr (sigmas @ [0]))"

definition ays_32_sigmas :: "bool \<Rightarrow> nat \<Rightarrow> real \<Rightarrow> real \<Rightarrow> error + real list" where
  "ays_32_sigmas is_sdxl n sigma_min sigma_max =
     (let sigmas = ays_32_table is_sdxl
      in if n \<noteq> length sigmas
         then and_then (loglinear_interp sigmas n) (\<lambda>s. Inr (s @ [0]))
         else Inr (sigmas @ [0]))"

subsection \<open>The custom sigma list\<close>

text \<open>\<open>str.strip(chars)\<close> removes the leading and trailing characters found in \<open>chars\<close>.\<close>

definition strip_chars :: "string \<Rightarrow> string \<Rightarrow> string" where
  "strip_chars chars s =
     rev (dropWhile (\<lambda>c. c \<in> set chars) (rev (dropWhile (\<lambda>c. c \<in> set chars) s)))"

text \<open>The ASCII characters that \<open>str.strip()\<close> without argument removes.\<close>

definition whitespace :: string where
  "whitespace =
     [CHR '' '', CHR 0x09, CHR 0x0A, CHR 0x0B, CHR 0x0C, CHR 0x0D,
      CHR 0x1C, CHR 0x1D, CHR 0x1E, CHR 0x1F]"

text \<open>\<open>str.split(sep)\<close> with a one-character separator: always at least one piece.\<close>

fun split_on :: "char \<Rightarrow> string \<Rightarrow> string list" where
  "split_on sep [] = [[]]"
| "split_on sep (c # cs) =
     (if c = sep then [] # split_on sep cs
      else (case split_on sep cs of
              w # ws \<Rightarrow> (c # w) # ws
            | [] \<Rightarrow> [[c]]))"

text \<open>
  The list comprehension \<open>[float(x.strip()) for x in sigmas_values]\<close>. Python's
  built-in \<open>float\<close> is a parameter: \<open>py_float s = None\<close> stands for the ValueError it
  raises on a string that is no number. The first failure ends the comprehension.
\<close>

fun floats_of :: "(string \<Rightarrow> real option) \<Rightarrow> string list \<Rightarrow> error + real list" where
  "floats_of py_float [] = Inr []"
| "floats_of py_float (x # xs) =
     (case py_float (strip_chars whitespace x) of
        None \<Rightarrow> Inl ValueError
      | Some v \<Rightarrow> and_then (floats_of py_float xs) (\<lambda>vs. Inr (v # vs)))"

text \<open>The body of the \<open>try\<close> block of \<open>get_sigmas_ays_custom\<close>.\<close>

definition ays_custom_try :: "(string \<Rightarrow> real option) \<Rightarrow> opts \<Rightarrow> nat \<Rightarrow> error + real list" where
  "ays_custom_try py_float opt n =
     (let sigmas_str = ays_custom_sigmas opt;
          sigmas_values = split_on CHR '','' (strip_chars ''[]'' sigmas_str)
      in and_then (floats_of py_float sigmas_values) (\<lambda>sigmas.
         and_then
           (if n \<noteq> length sigmas
            then np_interp (linspace 0 1 n) (linspace 0 1 (length sigmas)) sigmas
            else Inr sigmas)
           (\<lambda>sigmas. Inr (sigmas @ [0]))))"

text \<open>\<open>except Exception\<close> catches every error of the body and calls the default generator.\<close>

definition get_sigmas_ays_custom ::
  "(string \<Rightarrow> real option) \<Rightarrow> opts \<Rightarrow> bool \<Rightarrow> nat \<Rightarrow> real \<Rightarrow> real \<Rightarrow> error + real list" where
  "get_sigmas_ays_custom py_float opt is_sdxl n sigma_min sigma_max =
     (case ays_custom_try py_float opt n of
        Inr sigmas \<Rightarrow> Inr sigmas
      | Inl e \<Rightarrow> get_align_your_steps_sigmas is_sdxl n sigma_min sigma_max)"

text \<open>
  A reading of plain decimal literals (an optional sign, digits, an optional point and
  more digits), on which it agrees with Python's \<open>float\<close>; it is the instance of the
  parameter \<open>py_float\<close> used to run the generator on concrete strings.
\<close>

definition digit_of :: "char \<Rightarrow> nat option" where
  "digit_of = map_of (zip ''0123456789'' [0, 1, 2, 3, 4, 5, 6, 7, 8, 9])"

fun digits_val :: "string \<Rightarrow> nat \<Rightarrow> nat option" where
  "digits_val [] acc = Some acc"
| "digits_val (c # cs) acc =
     (case digit_of c of None \<Rightarrow> None | Some d \<Rightarrow> digits_val cs (10 * acc + d))"

definition unsigned_decimal :: "string \<Rightarrow> real option" where
  "unsigned_decimal s =
     (let ip = takeWhile (\<lambda>c. c \<noteq> CHR ''.'') s;
          rest = dropWhile (\<lambda>c. c \<noteq> CHR ''.'') s;
          fp = (case rest of [] \<Rightarrow> [] | c # cs \<Rightarrow> cs)
      in if ip = [] \<and> fp = [] then None
         else (case (digits_val ip 0, digits_val fp 0) of
                 (Some a, Some b) \<Rightarrow> Some (real a + real b / 10 ^ length fp)
               | _ \<Rightarrow> None))"

definition decimal_float :: "string \<Rightarrow> real option" where
  "decimal_float s =
     (case strip_chars whitespace s of
        [] \<Rightarrow> None
      | c # cs \<Rightarrow>
          if c = CHR ''-'' then map_option uminus (unsigned_decimal cs)
          else if c = CHR ''+'' then unsigned_decimal cs
          else unsigned_decimal (c # cs))"

subsection \<open>The beta scheduler\<close>

text \<open>
  \<open>scipy.stats.beta.ppf\<close>, the quantile function of the Beta distribution, is a
  parameter \<open>ppf q alpha beta\<close>. The values of \<open>np.rint\<close> are integers, so the
  timesteps are a list of \<open>int\<close>; \<open>last_t\<close> starts at \<open>-1\<close>.
\<close>

fun beta_loop :: "real list \<Rightarrow> int list \<Rightarrow> int \<Rightarrow> real list \<Rightarrow> error + real list" where
  "beta_loop table [] last_t sigs = Inr sigs"
| "beta_loop table (t # ts) last_t sigs =
     (if t \<noteq> last_t
      then and_then (py_index table t) (\<lambda>v. beta_loop table ts t (sigs @ [v]))
      else beta_loop table ts t sigs)"

definition beta_scheduler ::
  "(real \<Rightarrow> real \<Rightarrow> real \<Rightarrow> real) \<Rightarrow> opts \<Rightarrow> nat \<Rightarrow> real \<Rightarrow> real \<Rightarrow> real list \<Rightarrow> error + real list" where
  "beta_scheduler ppf opt n sigma_min sigma_max inner_model_sigmas =
     (let alpha = beta_dist_alpha opt;
          beta = beta_dist_beta opt;
          total_timesteps = int (length inner_model_sigmas) - 1;
          ts = map (\<lambda>u. 1 - u) (linspace_open 0 1 n);
          ts = map (\<lambda>q. rint (ppf q alpha beta * of_int total_timesteps)) ts
      in and_then (beta_loop inner_model_sigmas ts (- 1) []) (\<lambda>sigs. Inr (sigs @ [0])))"

subsection \<open>Log-linear interpolation as the specification words it\<close>

text \<open>
  The specification describes the resampling of a descending table of length \<open>m\<close> to
  \<open>k\<close> values: take the logarithm of the reversed table, interpolate linearly over
  \<open>k\<close> evenly spaced positions, exponentiate, reverse. The definitions below follow
  these words, with linear interpolation as the piecewise-linear function through the
  points \<open>(i / (m - 1), ys ! i)\<close>, evaluated by index arithmetic rather than by a search.
\<close>

definition evenly_spaced :: "nat \<Rightarrow> real list" where
  "evenly_spaced k = map (\<lambda>i. if k = 1 then 0 else real i / (real k - 1)) [0..<k]"

definition piecewise_linear :: "real list \<Rightarrow> real \<Rightarrow> real" where
  "piecewise_linear ys u =
     (let m = length ys
      in if m = 1 then ys ! 0
         else
           (let s = u * (real m - 1);
                j = min (nat \<lfloor>s\<rfloor>) (m - 2)
            in ys ! j + (s - real j) * (ys ! (j + 1) - ys ! j)))"

definition spec_linear_resample :: "real list \<Rightarrow> nat \<Rightarrow> real list" where
  "spec_linear_resample ys k = map (piecewise_linear ys) (evenly_spaced k)"

definition spec_loglinear :: "real list \<Rightarrow> nat \<Rightarrow> real list" where
  "spec_loglinear t k = rev (map exp (spec_linear_resample (map ln (rev t)) k))"

subsection \<open>A sample configuration\<close>

text \<open>
  The declarations of the options are not in this module; the values below are sample
  values, used only to run the generators on concrete inputs.
\<close>

definition sample_opts :: opts where
  "sample_opts =
     \<lparr>karras_rho = 7,
      exponential_shrink_factor = 0,
      polyexponential_rho = 1,
      sinusoidal_sf_factor = 1,
      invcosinusoidal_sf_factor = 1,
      react_cosinusoidal_dynsf_factor = 1,
      ays_custom_sigmas = ''[4,1]'',
      beta_dist_alpha = 1,
      beta_dist_beta = 1,
      cosine_sf_factor = 1,
      cosexpblend_exp_decay = 1 / 2,
      phi_power = 2,
      laplace_mu = 0,
      laplace_beta = 1 / 2,
      karras_dynamic_rho = 7\<rparr>"

section \<open>Properties\<close>

subsection \<open>The registry\<close>

lemma dict_of_map_of: "dict_of kvs m = m ++ map_of (rev kvs)"
proof (induction kvs m rule: dict_of.induct)
  case (1 m)
  then show ?case by simp
next
  case (2 k v kvs m)
  have "dict_of ((k, v) # kvs) m = m(k \<mapsto> v) ++ map_of (rev kvs)"
    by (simp only: dict_of.simps "2.IH")
  also have "\<dots> = m ++ map_of (rev ((k, v) # kvs))"
    by (rule ext) (simp add: map_add_def split: option.splits)
  finally show ?case .
qed

lemma schedulers_map_of_alt:
  "schedulers_map_of xs =
     map_of (rev (map (\<lambda>x. (name x, x)) xs)) ++ map_of (rev (map (\<lambda>x. (label x, x)) xs))"
  by (simp add: schedulers_map_of_def dict_of_map_of)

lemma dom_schedulers_map_of: "dom (schedulers_map_of xs) = name ` set xs \<union> label ` set xs"
  by (simp add: schedulers_map_of_alt dom_map_of_conv_image_fst image_image Un_commute)

text \<open>
  C2, as the code has it. The map is built from the ids and the labels only: the id
  \<open>sgm_uniform\<close> and the label \<open>SGM Uniform\<close> resolve to the same descriptor, whose
  field \<open>aliases\<close> lists \<open>SGMUniform\<close>, but \<open>SGMUniform\<close> itself is not a key of the
  map, and the keys of a map built from a list are exactly its ids and labels.
\<close>

theorem registry_keys_are_ids_and_labels:
  "schedulers_map ''sgm_uniform'' = Some (schedulers ! 8)
   \<and> schedulers_map ''SGM Uniform'' = Some (schedulers ! 8)
   \<and> aliases (schedulers ! 8) = Some [''SGMUniform'']
   \<and> schedulers_map ''SGMUniform'' = None
   \<and> dom (schedulers_map_of xs) = name ` set xs \<union> label ` set xs"
proof -
  have "schedulers_map ''sgm_uniform'' = Some (schedulers ! 8)"
    by (simp add: schedulers_map_def schedulers_map_of_alt schedulers_def mk_Scheduler_def
        map_add_def)
  moreover have "schedulers_map ''SGM Uniform'' = Some (schedulers ! 8)"
    by (simp add: schedulers_map_def schedulers_map_of_alt schedulers_def mk_Scheduler_def
        map_add_def)
  moreover have "aliases (schedulers ! 8) = Some [''SGMUniform'']"
    by (simp add: schedulers_def mk_Scheduler_def)
  moreover have "schedulers_map ''SGMUniform'' = None"
    by (simp add: schedulers_map_def schedulers_map_of_alt schedulers_def mk_Scheduler_def
        map_add_def)
  ultimately show ?thesis
    by (simp only: dom_schedulers_map_of simp_thms)
qed

text \<open>
  C2 as stated fails: looking up the alias does not give what looking up the id gives.
\<close>

theorem alias_lookup_differs_from_id_lookup:
  "schedulers_map ''SGMUniform'' \<noteq> schedulers_map ''sgm_uniform''"
  by (simp add: schedulers_map_def schedulers_map_of_alt schedulers_def mk_Scheduler_def
      map_add_def)

lemma map_of_keyed: "map_of (map (\<lambda>x. (f x, x)) ys) k = find (\<lambda>x. f x = k) ys"
  by (induction ys) auto

lemma schedulers_map_of_lookup:
  "schedulers_map_of xs k =
     (case find (\<lambda>x. label x = k) (rev xs) of
        Some x \<Rightarrow> Some x
      | None \<Rightarrow> find (\<lambda>x. name x = k) (rev xs))"
proof -
  have "rev (map (\<lambda>x. (f x, x)) xs) = map (\<lambda>x. (f x, x)) (rev xs)" for f :: "Scheduler \<Rightarrow> string"
    by (simp add: rev_map)
  then show ?thesis
    by (simp add: schedulers_map_of_alt map_add_def map_of_keyed split: option.splits)
qed

text \<open>
  C6, as the code has it. The fifty ids and labels of the static list are pairwise
  distinct, and every descriptor is found under its id and under its label. The
  construction itself checks nothing and cannot fail. For any list of descriptors, a key
  resolves to the descriptor registered last among those that have it as label and,
  when no descriptor has it as label, to the descriptor registered last among those that
  have it as id: a label takes precedence over an id, whatever the order of
  registration. In particular the label of the descriptor registered last maps to it.
\<close>

theorem registry_keys_distinct_no_check:
  "distinct (map name schedulers @ map label schedulers)
   \<and> map schedulers_map (map name schedulers) = map Some schedulers
   \<and> map schedulers_map (map label schedulers) = map Some schedulers
   \<and> schedulers_map_of xs k =
        (case find (\<lambda>x. label x = k) (rev xs) of
           Some x \<Rightarrow> Some x
         | None \<Rightarrow> find (\<lambda>x. name x = k) (rev xs))
   \<and> schedulers_map_of (xs @ [x]) (label x) = Some x"
proof -
  have "distinct (map name schedulers @ map label schedulers)"
    by (simp add: schedulers_def mk_Scheduler_def)
  moreover have "map schedulers_map (map name schedulers) = map Some schedulers"
    by (simp add: schedulers_map_def schedulers_map_of_alt schedulers_def mk_Scheduler_def
        map_add_def)
  moreover have "map schedulers_map (map label schedulers) = map Some schedulers"
    by (simp add: schedulers_map_def schedulers_map_of_alt schedulers_def mk_Scheduler_def
        map_add_def)
  moreover have "schedulers_map_of (xs @ [x]) (label x) = Some x"
    by (simp add: schedulers_map_of_alt map_add_def)
  ultimately show ?thesis
    using schedulers_map_of_lookup[of xs k] by (simp only: simp_thms)
qed

text \<open>
  C6 as stated fails: two descriptors registered under the id \<open>a\<close> build a registry
  without any error, in which the id resolves to the second one.
\<close>

theorem duplicate_id_silently_overwritten:
  "schedulers_map_of [mk_Scheduler ''a'' ''A'' None, mk_Scheduler ''a'' ''B'' (Some Uniform)] ''a''
     = Some (mk_Scheduler ''a'' ''B'' (Some Uniform))
   \<and> mk_Scheduler ''a'' ''B'' (Some Uniform) \<noteq> mk_Scheduler ''a'' ''A'' None"
  by (simp add: schedulers_map_of_alt mk_Scheduler_def map_add_def)

subsection \<open>Evenly spaced points and linear interpolation\<close>

lemma length_linspace: "length (linspace a b n) = n"
  by (simp add: linspace_def)

lemma linspace_nth: "i < n \<Longrightarrow> linspace a b n ! i = (if n = 1 then a else a + real i * ((b - a) / (real n - 1)))"
  by (auto simp: linspace_def)

lemma grid_nth: "2 \<le> m \<Longrightarrow> i < m \<Longrightarrow> linspace 0 1 m ! i = real i / (real m - 1)"
  by (simp add: linspace_def)

lemma grid_strict: "sorted_wrt (<) (linspace 0 1 m)"
proof (cases "m = 1")
  case True
  then show ?thesis by (simp add: linspace_def)
next
  case False
  have "sorted_wrt (<) (map (\<lambda>i. 0 + real i * ((1 - 0) / (real m - 1))) [0..<m])"
    unfolding sorted_wrt_map
  proof (rule sorted_wrt_mono_rel[of _ "(<)"])
    fix i j assume "i \<in> set [0..<m]" "j \<in> set [0..<m]" "i < j"
    then have "2 \<le> m" by auto
    then have "0 < (1 - 0) / (real m - 1)" by simp
    with \<open>i < j\<close> show "0 + real i * ((1 - 0) / (real m - 1)) < 0 + real j * ((1 - 0) / (real m - 1))"
      by (simp add: divide_strict_right_mono)
  next
    show "sorted_wrt (<) [0..<m]" by simp
  qed
  with False show ?thesis by (simp add: linspace_def)
qed

lemma scan_seg:
  "sorted_wrt (<) xp \<Longrightarrow> length fp = length xp \<Longrightarrow> Suc j < length xp \<Longrightarrow> xp ! j \<le> x
   \<Longrightarrow> x < xp ! Suc j
   \<Longrightarrow> interp_scan x xp fp = (fp ! Suc j - fp ! j) / (xp ! Suc j - xp ! j) * (x - xp ! j) + fp ! j"
proof (induction x xp fp arbitrary: j rule: interp_scan.induct)
  case (1 x x0 x1 xp y0 y1 fp)
  show ?case
  proof (cases j)
    case 0
    with 1 show ?thesis by simp
  next
    case (Suc j')
    have "x1 \<le> (x1 # xp) ! j'"
      using 1(2) 1(4) Suc by (cases j') (auto simp: less_imp_le)
    with 1(5) Suc have nlt: "\<not> x < x1" by simp
    have "interp_scan x (x1 # xp) (y1 # fp) =
        ((y1 # fp) ! Suc j' - (y1 # fp) ! j') / ((x1 # xp) ! Suc j' - (x1 # xp) ! j') * (x - (x1 # xp) ! j') + (y1 # fp) ! j'"
      using 1 Suc nlt by (intro "1.IH") auto
    with nlt Suc show ?thesis by simp
  qed
qed auto

lemma scan_last:
  "sorted_wrt (<) xp \<Longrightarrow> length fp = length xp \<Longrightarrow> xp \<noteq> [] \<Longrightarrow> last xp \<le> x
   \<Longrightarrow> interp_scan x xp fp = last fp"
proof (induction x xp fp rule: interp_scan.induct)
  case (1 x x0 x1 xp y0 y1 fp)
  have "last (x1 # xp) \<in> set (x1 # xp)" by (rule last_in_set) simp
  then have "x1 \<le> last (x1 # xp)"
    using 1(2) by (auto simp: less_imp_le simp del: last.simps)
  with 1 show ?case by auto
qed auto

lemma scan_bounds:
  "sorted_wrt (<) xp \<Longrightarrow> sorted fp \<Longrightarrow> length fp = length xp \<Longrightarrow> xp \<noteq> [] \<Longrightarrow> hd xp \<le> x
   \<Longrightarrow> hd fp \<le> interp_scan x xp fp \<and> interp_scan x xp fp \<le> last fp"
proof (induction x xp fp rule: interp_scan.induct)
  case (1 x x0 x1 xp y0 y1 fp)
  have y: "y0 \<le> y1" "y1 \<le> last (y1 # fp)" using 1(3) by auto
  have xs: "x0 < x1" using 1(2) by simp
  show ?case
  proof (cases "x < x1")
    case True
    define r where "r = (x - x0) / (x1 - x0)"
    have a: "0 \<le> r" "r \<le> 1"
      using True xs 1(6) by (auto simp: r_def)
    have "(y1 - y0) / (x1 - x0) * (x - x0) = (y1 - y0) * r" by (simp add: r_def)
    moreover have "0 \<le> (y1 - y0) * r" using a(1) y(1) by (intro mult_nonneg_nonneg) auto
    moreover have "(y1 - y0) * r \<le> (y1 - y0) * 1"
      using a(2) y(1) by (intro mult_left_mono) auto
    ultimately show ?thesis using True y by auto
  next
    case False
    then have "hd (y1 # fp) \<le> interp_scan x (x1 # xp) (y1 # fp) \<and> interp_scan x (x1 # xp) (y1 # fp) \<le> last (y1 # fp)"
      using 1 by (intro "1.IH") auto
    then show ?thesis using False y by auto
  qed
qed auto

lemma scan_mono:
  "sorted_wrt (<) xp \<Longrightarrow> sorted fp \<Longrightarrow> length fp = length xp \<Longrightarrow> xp \<noteq> [] \<Longrightarrow> hd xp \<le> x
   \<Longrightarrow> x \<le> x' \<Longrightarrow> interp_scan x xp fp \<le> interp_scan x' xp fp"
proof (induction x xp fp rule: interp_scan.induct)
  case (1 x x0 x1 xp y0 y1 fp)
  have y: "y0 \<le> y1" using 1(3) by auto
  have xs: "x0 < x1" using 1(2) by simp
  have seg: "(y1 - y0) / (x1 - x0) * (u - x0) + y0 \<le> (y1 - y0) / (x1 - x0) * (v - x0) + y0" if "u \<le> v" for u v
  proof -
    have "0 \<le> (y1 - y0) / (x1 - x0)" using y xs by simp
    moreover have "u - x0 \<le> v - x0" using that by simp
    ultimately have "(y1 - y0) / (x1 - x0) * (u - x0) \<le> (y1 - y0) / (x1 - x0) * (v - x0)"
      by (rule mult_left_mono[rotated])
    then show ?thesis by simp
  qed
  have at0: "(y1 - y0) / (x1 - x0) * (x0 - x0) + y0 = y0" by simp
  show ?case
  proof (cases "x' < x1")
    case True
    then have "x < x1" using 1(7) by simp
    have "interp_scan x (x0 # x1 # xp) (y0 # y1 # fp) = (y1 - y0) / (x1 - x0) * (x - x0) + y0"
      using \<open>x < x1\<close> by simp
    moreover have "interp_scan x' (x0 # x1 # xp) (y0 # y1 # fp) = (y1 - y0) / (x1 - x0) * (x' - x0) + y0"
      using True by simp
    ultimately show ?thesis using seg[OF 1(7)] by simp
  next
    case False
    show ?thesis
    proof (cases "x < x1")
      case True
      have "(y1 - y0) / (x1 - x0) * (x1 - x0) + y0 = y1" using xs by simp
      with seg[of x x1] True have "(y1 - y0) / (x1 - x0) * (x - x0) + y0 \<le> y1" by simp
      with True have le: "interp_scan x (x0 # x1 # xp) (y0 # y1 # fp) \<le> y1"
        using y by simp
      have "hd (y1 # fp) \<le> interp_scan x' (x1 # xp) (y1 # fp)"
        using 1(2,3,4) False
        by (intro scan_bounds[THEN conjunct1]) auto
      with le False show ?thesis by simp
    next
      case False
      with 1 have "interp_scan x (x1 # xp) (y1 # fp) \<le> interp_scan x' (x1 # xp) (y1 # fp)"
        by (intro "1.IH") auto
      with False \<open>\<not> x' < x1\<close> show ?thesis by simp
    qed
  qed
qed auto

lemma interp1_mono:
  assumes "sorted_wrt (<) xp" "sorted fp" "length fp = length xp" "xp \<noteq> []" "hd xp \<le> x" "x \<le> x'"
  shows "interp1 x xp fp \<le> interp1 x' xp fp"
  using assms scan_mono[OF assms] by (simp add: interp1_def)

lemma evenly_spaced_linspace: "evenly_spaced k = linspace 0 1 k"
  by (auto simp: evenly_spaced_def linspace_def)

lemma linspace_unit_range:
  assumes "u \<in> set (linspace 0 1 k)"
  shows "0 \<le> u \<and> u \<le> 1"
proof (cases "k = 1")
  case True
  with assms show ?thesis by (simp add: linspace_def)
next
  case False
  with assms obtain i where i: "i < k" "u = real i / (real k - 1)"
    by (auto simp: linspace_def)
  with False have "2 \<le> k" by simp
  then have "real i \<le> real k - 1" "0 < real k - 1" using i by auto
  then show ?thesis using i by simp
qed

lemma interp1_grid:
  assumes ys: "ys \<noteq> []" and u: "0 \<le> u" "u \<le> 1"
  shows "interp1 u (linspace 0 1 (length ys)) ys = piecewise_linear ys u"
proof -
  define m where "m = length ys"
  have m1: "1 \<le> m" using ys by (simp add: m_def Suc_leI)
  show ?thesis
  proof (cases "m = 1")
    case True
    then obtain y where "ys = [y]" unfolding m_def by (cases ys) auto
    with u show ?thesis by (simp add: interp1_def linspace_def piecewise_linear_def)
  next
    case False
    with m1 have m2: "2 \<le> m" by simp
    define xp where "xp = linspace 0 1 m"
    have len: "length xp = m" by (simp add: xp_def length_linspace)
    have nth: "xp ! i = real i / (real m - 1)" if "i < m" for i
      using that m2 by (simp add: xp_def grid_nth)
    have srt: "sorted_wrt (<) xp" by (simp add: xp_def grid_strict)
    have ne: "xp \<noteq> []" using len m2 by auto
    have hd0: "hd xp = 0" using nth[of 0] m2 ne by (simp add: hd_conv_nth)
    have lst: "last xp = 1" using nth[of "m - 1"] m2 ne len by (simp add: last_conv_nth)
    have pos: "0 < real m - 1" using m2 by simp
    have i1: "interp1 u xp ys = interp_scan u xp ys" using u hd0 by (simp add: interp1_def)
    show ?thesis
    proof (cases "u = 1")
      case True
      have "interp_scan u xp ys = last ys"
        using srt len ne lst True by (intro scan_last) (auto simp: m_def)
      moreover have "last ys = ys ! (m - 1)" using ys by (simp add: last_conv_nth m_def)
      moreover have "piecewise_linear ys u = ys ! (m - 1)"
      proof -
        have s: "u * (real m - 1) = real (m - 1)" using True m2 by simp
        have j: "min (nat \<lfloor>real (m - 1)\<rfloor>) (m - 2) = m - 2" by simp
        have e: "real (m - 1) - real (m - 2) = 1" using m2 by simp
        have f: "m - 2 + 1 = m - 1" using m2 by simp
        show ?thesis
          using False unfolding piecewise_linear_def Let_def m_def[symmetric] s j e f by simp
      qed
      ultimately show ?thesis using i1 by (simp add: xp_def m_def)
    next
      case False
      with u have u1: "u < 1" by simp
      define s where "s = u * (real m - 1)"
      define j where "j = nat \<lfloor>s\<rfloor>"
      have s0: "0 \<le> s" using u pos by (simp add: s_def)
      have slt: "s < real m - 1" using u1 pos by (simp add: s_def)
      have js: "real j \<le> s" using s0 by (simp add: j_def)
      have sj: "s < real j + 1" using s0 by (simp add: j_def)
      have jm: "Suc j < m" using js slt by linarith
      then have jmin: "min j (m - 2) = j" by simp
      have a: "xp ! j \<le> u"
      proof -
        have "real j / (real m - 1) \<le> u" using js pos by (simp add: s_def pos_divide_le_eq)
        then show ?thesis using nth[of j] jm by simp
      qed
      have b: "u < xp ! Suc j"
      proof -
        have "u < (real j + 1) / (real m - 1)" using sj pos by (simp add: s_def pos_less_divide_eq)
        then show ?thesis using nth[of "Suc j"] jm by (simp add: add.commute)
      qed
      have "interp_scan u xp ys = (ys ! Suc j - ys ! j) / (xp ! Suc j - xp ! j) * (u - xp ! j) + ys ! j"
        using srt len jm a b by (intro scan_seg) (auto simp: m_def)
      also have "xp ! Suc j - xp ! j = 1 / (real m - 1)"
        using nth[of j] nth[of "Suc j"] jm by (simp add: field_simps)
      also have "(ys ! Suc j - ys ! j) / (1 / (real m - 1)) * (u - xp ! j) = (s - real j) * (ys ! Suc j - ys ! j)"
      proof -
        have "u = s / (real m - 1)" using pos by (simp add: s_def)
        then have "u - xp ! j = (s - real j) / (real m - 1)"
          using nth[of j] jm by (simp add: diff_divide_distrib)
        then show ?thesis using pos by simp
      qed
      finally have "interp_scan u xp ys = ys ! j + (s - real j) * (ys ! (j + 1) - ys ! j)" by simp
      moreover have "piecewise_linear ys u = ys ! j + (s - real j) * (ys ! (j + 1) - ys ! j)"
        using \<open>m \<noteq> 1\<close> jmin unfolding piecewise_linear_def Let_def m_def[symmetric] s_def[symmetric] j_def[symmetric]
        by simp
      ultimately show ?thesis using i1 by (simp add: xp_def m_def)
    qed
  qed
qed

lemma np_interp_grid:
  assumes "ys \<noteq> []"
  shows "np_interp (linspace 0 1 k) (linspace 0 1 (length ys)) ys = Inr (spec_linear_resample ys k)"
proof -
  have ne: "linspace 0 1 (length ys) \<noteq> []"
    using assms length_linspace[of 0 1 "length ys"] by auto
  have "map (\<lambda>x. interp1 x (linspace 0 1 (length ys)) ys) (linspace 0 1 k)
        = map (piecewise_linear ys) (linspace 0 1 k)"
    using linspace_unit_range interp1_grid[OF assms] by (intro map_cong) auto
  then show ?thesis
    using ne by (simp add: np_interp_def spec_linear_resample_def evenly_spaced_linspace length_linspace)
qed

lemma loglinear_interp_spec:
  assumes "t \<noteq> []"
  shows "loglinear_interp t k = Inr (spec_loglinear t k)"
proof -
  have "map ln (rev t) \<noteq> []" using assms by simp
  from np_interp_grid[OF this, of k] show ?thesis
    by (simp add: loglinear_interp_def spec_loglinear_def and_then_def)
qed

subsection \<open>Log-linear resampling\<close>

lemma interp1_at_node:
  assumes "sorted_wrt (<) xp" "length fp = length xp" "i < length xp"
  shows "interp1 (xp ! i) xp fp = fp ! i"
proof -
  have ne: "xp \<noteq> []" using assms(3) by auto
  have "hd xp \<le> xp ! i"
  proof (cases i)
    case 0
    then show ?thesis using ne by (simp add: hd_conv_nth)
  next
    case (Suc k)
    then have "xp ! 0 < xp ! i" using assms(1,3) by (simp add: sorted_wrt_nth_less)
    then show ?thesis using ne by (simp add: hd_conv_nth)
  qed
  then have i1: "interp1 (xp ! i) xp fp = interp_scan (xp ! i) xp fp"
    by (simp add: interp1_def)
  show ?thesis
  proof (cases "Suc i < length xp")
    case True
    have "xp ! i < xp ! Suc i" using assms(1) True by (simp add: sorted_wrt_nth_less)
    then have "interp_scan (xp ! i) xp fp =
        (fp ! Suc i - fp ! i) / (xp ! Suc i - xp ! i) * (xp ! i - xp ! i) + fp ! i"
      using assms True by (intro scan_seg) auto
    with i1 show ?thesis by simp
  next
    case False
    with assms(3) have "i = length xp - 1" by simp
    moreover have "fp \<noteq> []" using ne assms(2) by auto
    ultimately have "xp ! i = last xp" "fp ! i = last fp"
      using ne assms(2) by (auto simp: last_conv_nth)
    moreover have "interp_scan (last xp) xp fp = last fp"
      using assms ne by (intro scan_last) auto
    ultimately show ?thesis using i1 by simp
  qed
qed

lemma np_interp_same_grid:
  assumes "sorted_wrt (<) xp" "length fp = length xp" "xp \<noteq> []"
  shows "np_interp xp xp fp = Inr fp"
proof -
  have "map (\<lambda>x. interp1 x xp fp) xp = fp"
    using assms interp1_at_node[OF assms(1,2)] by (intro nth_equalityI) auto
  with assms show ?thesis by (simp add: np_interp_def)
qed

lemma exp_ln_list: "\<forall>x\<in>set t. 0 < x \<Longrightarrow> map exp (map ln t) = (t :: real list)"
  by (induction t) auto

text \<open>
  C7. Resampling a table to its own length gives the table back: for every non-empty
  table of positive numbers (descending or not), \<open>loglinear_interp\<close> at the length of the
  table returns exactly the table. Over the reals the values agree exactly; the floating
  tolerance of the claim covers the rounding of \<open>log\<close> and \<open>exp\<close>, which is not modelled.
  (On the empty list numpy's \<open>interp\<close> raises ValueError, see \<open>loglinear_interp_empty\<close>.)
\<close>

theorem loglinear_interp_own_length:
  assumes "t \<noteq> []" and "\<forall>x\<in>set t. 0 < x"
  shows "loglinear_interp t (length t) = Inr t"
proof -
  let ?xs = "linspace 0 1 (length t)"
  have "np_interp ?xs ?xs (map ln (rev t)) = Inr (map ln (rev t))"
    using assms(1) length_linspace[of 0 1 "length t"]
    by (intro np_interp_same_grid grid_strict) auto
  moreover have "rev (map exp (map ln (rev t))) = t"
    using assms(2) exp_ln_list[of "rev t"] by simp
  ultimately show ?thesis by (simp add: loglinear_interp_def and_then_def)
qed

theorem loglinear_interp_own_length_witness:
  "[4, 2, 1] \<noteq> ([] :: real list) \<and> (0::real) < 4 \<and> (0::real) < 2 \<and> (0::real) < 1
   \<and> loglinear_interp [4, 2, 1] 3 = Inr [4, 2, 1]"
  using loglinear_interp_own_length[of "[4, 2, 1]"] by (simp add: numeral_3_eq_3)

lemma loglinear_interp_empty: "loglinear_interp [] k = Inl ValueError"
  by (simp add: loglinear_interp_def and_then_def np_interp_def linspace_def)

lemma sorted_linspace01: "sorted (linspace 0 1 k)"
  using grid_strict[of k] by (rule sorted_wrt_mono_rel[rotated]) simp

lemma sorted_interp:
  assumes "sorted_wrt (<) xp" "sorted fp" "length fp = length xp" "xp \<noteq> []"
    and "sorted zs" "\<forall>z\<in>set zs. hd xp \<le> z"
  shows "sorted (map (\<lambda>x. interp1 x xp fp) zs)"
  unfolding sorted_map
  using assms(5)
proof (rule sorted_wrt_mono_rel[rotated])
  fix x y assume "x \<in> set zs" "y \<in> set zs" "x \<le> y"
  with assms show "interp1 x xp fp \<le> interp1 y xp fp"
    by (intro interp1_mono) auto
qed

lemma loglinear_interp_descending:
  assumes "t \<noteq> []" "sorted_wrt (\<ge>) t" "\<forall>x\<in>set t. 0 < x"
  shows "\<exists>s. loglinear_interp t k = Inr s \<and> length s = k \<and> sorted_wrt (\<ge>) s \<and> (\<forall>x\<in>set s. 0 < x)"
proof -
  let ?xs = "linspace 0 1 (length t)"
  let ?ys = "map ln (rev t)"
  let ?zs = "linspace 0 1 k"
  let ?new = "map (\<lambda>x. interp1 x ?xs ?ys) ?zs"
  have ne: "?xs \<noteq> []" using assms(1) length_linspace[of 0 1 "length t"] by auto
  have hd0: "hd ?xs = 0" using assms(1) by (cases "length t = 1") (auto simp: linspace_def hd_map upt_conv_Cons)
  have "sorted (rev t)" using assms(2) by (simp add: sorted_wrt_rev)
  then have ys: "sorted ?ys"
    unfolding sorted_map
  proof (rule sorted_wrt_mono_rel[rotated])
    fix x y assume "x \<in> set (rev t)" "y \<in> set (rev t)" "x \<le> y"
    with assms(3) show "ln x \<le> ln y" by simp
  qed
  have srt: "sorted ?new"
    using ne ys hd0 linspace_unit_range[of _ k]
    by (intro sorted_interp grid_strict sorted_linspace01) (auto simp: length_linspace)
  have eq: "loglinear_interp t k = Inr (rev (map exp ?new))"
    using ne by (simp add: loglinear_interp_def and_then_def np_interp_def length_linspace)
  have "sorted (map exp ?new)"
    unfolding sorted_map[of exp] using srt by (rule sorted_wrt_mono_rel[rotated]) simp
  then have "sorted_wrt (\<ge>) (rev (map exp ?new))" by (simp add: sorted_wrt_rev)
  moreover have "length (rev (map exp ?new)) = k" by (simp add: length_linspace)
  moreover have "\<forall>x\<in>set (rev (map exp ?new)). 0 < x" by auto
  ultimately show ?thesis using eq by blast
qed

subsection \<open>The align-your-steps tables\<close>

lemma ays_sigmas_props:
  "length (ays_sigmas b) = 11 \<and> sorted_wrt (\<ge>) (ays_sigmas b) \<and> (\<forall>x\<in>set (ays_sigmas b). 0 < x)"
  by (simp add: ays_sigmas_def)

lemma gits_sigmas_props:
  "length (gits_sigmas b) = 11 \<and> sorted_wrt (\<ge>) (gits_sigmas b) \<and> (\<forall>x\<in>set (gits_sigmas b). 0 < x)"
  by (simp add: gits_sigmas_def)

lemma ays_32_table_props:
  "length (ays_32_table b) = 32 \<and> sorted_wrt (\<ge>) (ays_32_table b) \<and> (\<forall>x\<in>set (ays_32_table b). 0 < x)"
  by (simp add: ays_32_table_def)

lemma sorted_desc_append_zero:
  assumes "sorted_wrt (\<ge>) s" "\<forall>x\<in>set s. 0 < x"
  shows "sorted_wrt (\<ge>) (s @ [0::real])"
  using assms by (auto simp: sorted_wrt_append less_imp_le)

text \<open>
  C4. The table of \<open>get_align_your_steps_sigmas\<close> has 11 entries (for either model
  family). For \<open>n = 11\<close> the output is the table followed by \<open>0\<close>; for any other \<open>n\<close>
  the generator returns \<open>n + 1\<close> values in non-increasing order. (Over the reals; the
  rounding of the interpolation is not modelled.)
\<close>

theorem align_your_steps_table_or_resampled:
  "length (ays_sigmas is_sdxl) = 11
   \<and> (n = 11 \<longrightarrow>
        get_align_your_steps_sigmas is_sdxl n sigma_min sigma_max = Inr (ays_sigmas is_sdxl @ [0]))
   \<and> (n \<noteq> 11 \<longrightarrow>
        (\<exists>s. get_align_your_steps_sigmas is_sdxl n sigma_min sigma_max = Inr s
             \<and> length s = n + 1 \<and> sorted_wrt (\<ge>) s))"
proof -
  note p = ays_sigmas_props[of is_sdxl]
  have ne: "ays_sigmas is_sdxl \<noteq> []" using p by auto
  obtain s where s: "loglinear_interp (ays_sigmas is_sdxl) n = Inr s" "length s = n"
    "sorted_wrt (\<ge>) s" "\<forall>x\<in>set s. 0 < x"
    using loglinear_interp_descending[OF ne, of n] p by blast
  have "n \<noteq> 11 \<longrightarrow> get_align_your_steps_sigmas is_sdxl n sigma_min sigma_max = Inr (s @ [0])"
    using s(1) p by (simp add: get_align_your_steps_sigmas_def and_then_def)
  moreover have "length (s @ [0]) = n + 1" using s(2) by simp
  moreover have "sorted_wrt (\<ge>) (s @ [0])" using s(3,4) by (rule sorted_desc_append_zero)
  moreover have "n = 11 \<longrightarrow>
        get_align_your_steps_sigmas is_sdxl n sigma_min sigma_max = Inr (ays_sigmas is_sdxl @ [0])"
    using p by (simp add: get_align_your_steps_sigmas_def)
  ultimately show ?thesis using p by blast
qed

theorem align_your_steps_table_or_resampled_witness:
  "get_align_your_steps_sigmas True 11 (3 / 100) (146 / 10) = Inr (ays_sigmas True @ [0])
   \<and> (\<exists>s. get_align_your_steps_sigmas False 20 (3 / 100) (146 / 10) = Inr s
          \<and> length s = 20 + 1 \<and> sorted_wrt (\<ge>) s)"
  using align_your_steps_table_or_resampled[of True 11 "3 / 100" "146 / 10"]
    align_your_steps_table_or_resampled[of False 20 "3 / 100" "146 / 10"]
  by simp

subsection \<open>The custom sigma list and the resampling of the variants\<close>

lemma split_on_nonempty: "split_on c s \<noteq> []"
  by (induction s) (auto split: list.splits)

lemma floats_of_length: "floats_of pf xs = Inr vs \<Longrightarrow> length vs = length xs"
  by (induction xs arbitrary: vs) (auto simp: and_then_def split: option.splits sum.splits)

lemma floats_of_fail:
  "x \<in> set xs \<Longrightarrow> pf (strip_chars whitespace x) = None \<Longrightarrow> floats_of pf xs = Inl ValueError"
  by (induction xs) (auto simp: and_then_def split: option.splits sum.splits)

lemma default_returns:
  "\<exists>s. get_align_your_steps_sigmas b n smin smax = Inr s \<and> length s = n + 1"
proof -
  note p = ays_sigmas_props[of b]
  have ne: "ays_sigmas b \<noteq> []" using p by auto
  obtain s where s: "loglinear_interp (ays_sigmas b) n = Inr s" "length s = n"
    using loglinear_interp_descending[OF ne, of n] p by blast
  show ?thesis
    using s p by (cases "n = 11") (auto simp: get_align_your_steps_sigmas_def and_then_def)
qed

lemma custom_resampled:
  assumes "floats_of pf (split_on CHR '','' (strip_chars ''[]'' (ays_custom_sigmas opt))) = Inr vs"
  shows "get_sigmas_ays_custom pf opt b n smin smax =
           Inr ((if n \<noteq> length vs then spec_linear_resample vs n else vs) @ [0])"
proof -
  have "vs \<noteq> []"
    using floats_of_length[OF assms] split_on_nonempty[of "CHR '',''"] by auto
  from np_interp_grid[OF this, of n] assms show ?thesis
    by (simp add: get_sigmas_ays_custom_def ays_custom_try_def and_then_def)
qed

text \<open>
  C3, as the code has it. The four table-based variants (default, GITS, 11 and 32), for a
  step count other than the length of their table, return the log-linear resampling of
  the table in the sense of the specification, followed by \<open>0\<close>. The custom variant
  does something else: for a parsed list \<open>vs\<close> and \<open>n\<close> other than its length it returns
  the plain linear resampling of \<open>vs\<close> (no logarithm, no reversal), followed by \<open>0\<close>.
\<close>

theorem ays_variants_resampling:
  "(n \<noteq> 11 \<longrightarrow> get_align_your_steps_sigmas b n smin smax
                   = Inr (spec_loglinear (ays_sigmas b) n @ [0]))
   \<and> (n \<noteq> 11 \<longrightarrow> get_align_your_steps_sigmas_GITS b n smin smax
                   = Inr (spec_loglinear (gits_sigmas b) n @ [0]))
   \<and> (n \<noteq> 11 \<longrightarrow> ays_11_sigmas b n smin smax
                   = Inr (spec_loglinear (ays_sigmas b) n @ [0]))
   \<and> (n \<noteq> 32 \<longrightarrow> ays_32_sigmas b n smin smax
                   = Inr (spec_loglinear (ays_32_table b) n @ [0]))
   \<and> (floats_of pf (split_on CHR '','' (strip_chars ''[]'' (ays_custom_sigmas opt))) = Inr vs
        \<and> n \<noteq> length vs
      \<longrightarrow> get_sigmas_ays_custom pf opt b n smin smax = Inr (spec_linear_resample vs n @ [0]))"
proof -
  have a: "ays_sigmas b \<noteq> []" "gits_sigmas b \<noteq> []" "ays_32_table b \<noteq> []"
    using ays_sigmas_props[of b] gits_sigmas_props[of b] ays_32_table_props[of b] by auto
  have "n \<noteq> 11 \<longrightarrow> get_align_your_steps_sigmas b n smin smax
                   = Inr (spec_loglinear (ays_sigmas b) n @ [0])"
    using ays_sigmas_props[of b] loglinear_interp_spec[OF a(1), of n]
    by (simp add: get_align_your_steps_sigmas_def and_then_def)
  moreover have "n \<noteq> 11 \<longrightarrow> get_align_your_steps_sigmas_GITS b n smin smax
                   = Inr (spec_loglinear (gits_sigmas b) n @ [0])"
    using gits_sigmas_props[of b] loglinear_interp_spec[OF a(2), of n]
    by (simp add: get_align_your_steps_sigmas_GITS_def and_then_def)
  moreover have "n \<noteq> 11 \<longrightarrow> ays_11_sigmas b n smin smax
                   = Inr (spec_loglinear (ays_sigmas b) n @ [0])"
    using ays_sigmas_props[of b] loglinear_interp_spec[OF a(1), of n]
    by (simp add: ays_11_sigmas_def and_then_def)
  moreover have "n \<noteq> 32 \<longrightarrow> ays_32_sigmas b n smin smax
                   = Inr (spec_loglinear (ays_32_table b) n @ [0])"
    using ays_32_table_props[of b] loglinear_interp_spec[OF a(3), of n]
    by (simp add: ays_32_sigmas_def and_then_def)
  moreover have "floats_of pf (split_on CHR '','' (strip_chars ''[]'' (ays_custom_sigmas opt))) = Inr vs
        \<and> n \<noteq> length vs
      \<longrightarrow> get_sigmas_ays_custom pf opt b n smin smax = Inr (spec_linear_resample vs n @ [0])"
    using custom_resampled[of pf opt vs b n smin smax] by simp
  ultimately show ?thesis by blast
qed

lemma parse_4_1:
  "floats_of decimal_float (split_on CHR '','' (strip_chars ''[]'' (ays_custom_sigmas sample_opts)))
     = Inr [4, 1]"
  by (simp add: sample_opts_def strip_chars_def decimal_float_def unsigned_decimal_def
      digit_of_def whitespace_def and_then_def)

lemma lin_4_1: "spec_linear_resample [4, 1] 3 = [4, 5 / 2, 1]"
  by (simp add: spec_linear_resample_def evenly_spaced_def piecewise_linear_def upt_rec numeral_3_eq_3)

lemma log_4_1: "spec_loglinear [4, 1] 3 = [4, 2, 1]"
proof -
  have "exp (ln 4 / 2) * exp (ln 4 / 2) = (4::real)" by (simp flip: exp_add)
  then have "(exp (ln 4 / 2))\<^sup>2 = (2::real)\<^sup>2" by (simp add: power2_eq_square)
  then have e: "exp (ln 4 / 2) = (2::real)" by (rule power2_eq_imp_eq) simp_all
  have "spec_linear_resample [ln 1, ln 4] 3 = [0, ln 4 / 2, ln 4]"
    by (simp add: spec_linear_resample_def evenly_spaced_def piecewise_linear_def upt_rec numeral_3_eq_3)
  then show ?thesis using e by (simp add: spec_loglinear_def)
qed

text \<open>The statement of C3 at \<open>n = 3\<close>, with the custom list \<open>[4,1]\<close>.\<close>

theorem ays_variants_resampling_witness:
  "get_align_your_steps_sigmas True 3 1 2 = Inr (spec_loglinear (ays_sigmas True) 3 @ [0])
   \<and> get_align_your_steps_sigmas_GITS True 3 1 2 = Inr (spec_loglinear (gits_sigmas True) 3 @ [0])
   \<and> ays_11_sigmas True 3 1 2 = Inr (spec_loglinear (ays_sigmas True) 3 @ [0])
   \<and> ays_32_sigmas True 3 1 2 = Inr (spec_loglinear (ays_32_table True) 3 @ [0])
   \<and> get_sigmas_ays_custom decimal_float sample_opts True 3 1 2 = Inr [4, 5 / 2, 1, 0]"
  using ays_variants_resampling[of 3 True 1 2 decimal_float sample_opts "[4, 1]"] parse_4_1 lin_4_1
  by simp

text \<open>
  C3 as stated fails for the custom variant: for the list \<open>[4,1]\<close> and \<open>n = 3\<close> it
  returns \<open>4, 5/2, 1, 0\<close>, and the log-linear resampling of \<open>[4,1]\<close> is \<open>4, 2, 1\<close>.
\<close>

theorem custom_variant_is_not_loglinear:
  "get_sigmas_ays_custom decimal_float sample_opts True 3 1 2
     \<noteq> Inr (spec_loglinear [4, 1] 3 @ [0])"
proof -
  have "get_sigmas_ays_custom decimal_float sample_opts True 3 1 2 = Inr [4, 5 / 2, 1, 0]"
    using custom_resampled[OF parse_4_1, of True 3 1 2] lin_4_1 by simp
  then show ?thesis using log_4_1 by simp
qed

text \<open>
  C5. When one piece of the configured string is no number (\<open>float\<close> raises on it), the
  custom generator returns what \<open>get_align_your_steps_sigmas\<close> returns for the same
  arguments, and that is a result of \<open>n + 1\<close> values, not an error. It holds for every
  step count.
\<close>

theorem custom_parse_failure_falls_back:
  assumes "x \<in> set (split_on CHR '','' (strip_chars ''[]'' (ays_custom_sigmas opt)))"
    and "pf (strip_chars whitespace x) = None"
  shows "get_sigmas_ays_custom pf opt b n smin smax = get_align_your_steps_sigmas b n smin smax
         \<and> (\<exists>s. get_sigmas_ays_custom pf opt b n smin smax = Inr s \<and> length s = n + 1)"
proof -
  have "get_sigmas_ays_custom pf opt b n smin smax = get_align_your_steps_sigmas b n smin smax"
    using floats_of_fail[of x _ pf] assms
    by (simp add: get_sigmas_ays_custom_def ays_custom_try_def and_then_def)
  then show ?thesis using default_returns[of b n smin smax] by simp
qed

text \<open>The statement of C5 for the string \<open>[1,2,abc]\<close> and five steps.\<close>

theorem custom_parse_failure_falls_back_witness:
  "''abc'' \<in> set (split_on CHR '','' (strip_chars ''[]'' ''[1,2,abc]''))
   \<and> decimal_float (strip_chars whitespace ''abc'') = None
   \<and> get_sigmas_ays_custom decimal_float (sample_opts\<lparr>ays_custom_sigmas := ''[1,2,abc]''\<rparr>) False 5 1 2
       = get_align_your_steps_sigmas False 5 1 2
   \<and> (\<exists>s. get_sigmas_ays_custom decimal_float (sample_opts\<lparr>ays_custom_sigmas := ''[1,2,abc]''\<rparr>) False 5 1 2 = Inr s
          \<and> length s = 5 + 1)"
proof -
  let ?opt = "sample_opts\<lparr>ays_custom_sigmas := ''[1,2,abc]''\<rparr>"
  have a0: "''abc'' \<in> set (split_on CHR '','' (strip_chars ''[]'' ''[1,2,abc]''))"
    by (simp add: strip_chars_def)
  then have a: "''abc'' \<in> set (split_on CHR '','' (strip_chars ''[]'' (ays_custom_sigmas ?opt)))"
    by simp
  have b: "decimal_float (strip_chars whitespace ''abc'') = None"
    by (simp add: strip_chars_def decimal_float_def unsigned_decimal_def digit_of_def whitespace_def)
  note r = custom_parse_failure_falls_back[of "''abc''" ?opt decimal_float False 5 1 2, OF a b]
  show ?thesis
    by (intro conjI) (rule a0, rule b, rule r[THEN conjunct1], rule r[THEN conjunct2])
qed

subsection \<open>Powers, rounding and the beta scheduler\<close>

lemma float_max_ge_4: "4 \<le> float_max"
proof -
  have "(2::real) ^ 2 \<le> 2 ^ 1023" by (rule power_increasing) simp_all
  moreover have "(1::real) \<le> 2 - 1 / 2 ^ 52" by simp
  ultimately have "1 * (2::real) ^ 2 \<le> (2 - 1 / 2 ^ 52) * 2 ^ 1023"
    by (intro mult_mono) simp_all
  then show ?thesis by (simp add: float_max_def)
qed



lemma float_pow_unit_exponent:
  assumes "0 \<le> x" "0 \<le> y" "y \<le> 1"
  shows "0 \<le> float_pow x y \<and> float_pow x y \<le> max 1 x"
proof (cases "y = 0 \<or> x = 0")
  case True
  then show ?thesis by (auto simp: float_pow_def)
next
  case False
  then have x: "0 < x" and y: "0 < y" using assms by auto
  have "x powr y \<le> max 1 x"
  proof (cases "x \<le> 1")
    case True
    then have "x powr y \<le> 1" using x y by (intro powr_le1) auto
    then show ?thesis by simp
  next
    case False
    then have "x powr y \<le> x powr 1" using assms(3) by (intro powr_mono) auto
    then show ?thesis using x by simp
  qed
  then show ?thesis using x y by (simp add: float_pow_def)
qed

lemma py_pow_unit_exponent:
  assumes "0 \<le> x" "0 \<le> y" "y \<le> 1"
  shows "py_pow x y = Inr (float_pow x y)"
proof -
  note b = float_pow_unit_exponent[OF assms]
  have "\<bar>float_pow x y\<bar> \<le> float_max" if "\<bar>x\<bar> \<le> float_max"
    using b that float_max_ge_4 by auto
  then show ?thesis using assms by (auto simp: py_pow_def)
qed

lemma float_pow_half: "0 \<le> x \<Longrightarrow> float_pow x (1 / 2) = sqrt x"
  by (cases "x = 0") (simp_all add: float_pow_def powr_half_sqrt)

lemma py_pow_half: "0 \<le> x \<Longrightarrow> py_pow x (1 / 2) = Inr (sqrt x)"
  using py_pow_unit_exponent[of x "1 / 2"] by (simp add: float_pow_half)

text \<open>
  C8. For a single step the cosine, cosine-exponential-blend and phi generators return
  the one value \<open>sqrt sigma_max\<close> (neither \<open>sigma_min\<close> nor the configured factor enters
  it), followed by the terminal \<open>0\<close>. \<open>sigma_max\<close> is a noise level, so non-negative;
  on a negative one Python's \<open>** 0.5\<close> is complex and the generator fails.
\<close>

theorem single_step_is_sqrt_sigma_max:
  assumes "0 \<le> sigma_max"
  shows "cosine_scheduler opt 1 sigma_min sigma_max = Inr [sqrt sigma_max, 0]
         \<and> cosexpblend_scheduler opt 1 sigma_min sigma_max = Inr [sqrt sigma_max, 0]
         \<and> phi_scheduler opt 1 sigma_min sigma_max = Inr [sqrt sigma_max, 0]"
  using py_pow_half[OF assms]
  by (simp add: cosine_scheduler_def cosexpblend_scheduler_def phi_scheduler_def and_then_def)

text \<open>The statement of C8 at \<open>sigma_max = 4\<close>.\<close>

theorem single_step_is_sqrt_sigma_max_witness:
  "(0::real) \<le> 4
   \<and> cosine_scheduler sample_opts 1 1 4 = Inr [2, 0]
   \<and> cosexpblend_scheduler sample_opts 1 1 4 = Inr [2, 0]
   \<and> phi_scheduler sample_opts 1 1 4 = Inr [2, 0]"
proof -
  have "sqrt 4 = (2::real)" using real_sqrt_abs[of 2] by simp
  then show ?thesis using single_step_is_sqrt_sigma_max[of 4 sample_opts 1] by simp
qed

lemma rint_range:
  assumes "0 \<le> x" "x \<le> of_int N"
  shows "0 \<le> rint x \<and> rint x \<le> N"
proof -
  have f0: "0 \<le> \<lfloor>x\<rfloor>" using assms(1) by simp
  have fN: "\<lfloor>x\<rfloor> \<le> N" using assms(2) by (simp add: floor_le_iff)
  show ?thesis
  proof (cases "\<lfloor>x\<rfloor> = N")
    case True
    then have "x - of_int \<lfloor>x\<rfloor> \<le> 0" using assms(2) by simp
    then have "rint x = \<lfloor>x\<rfloor>" by (simp add: rint_def Let_def)
    with f0 fN show ?thesis by simp
  next
    case False
    with fN have "\<lfloor>x\<rfloor> + 1 \<le> N" by simp
    moreover have "rint x = \<lfloor>x\<rfloor> \<or> rint x = \<lfloor>x\<rfloor> + 1" by (auto simp: rint_def Let_def)
    ultimately show ?thesis using f0 fN by auto
  qed
qed

lemma beta_loop_returns:
  assumes "\<forall>t\<in>set ts. 0 \<le> t \<and> t < int (length table)"
  shows "\<exists>out. beta_loop table ts last_t sigs = Inr out \<and> length out \<le> length sigs + length ts"
  using assms
proof (induction ts arbitrary: last_t sigs)
  case Nil
  then show ?case by simp
next
  case (Cons t ts)
  then have idx: "py_index table t = Inr (table ! nat t)" by (simp add: py_index_def)
  from Cons obtain out1 where o1: "beta_loop table ts t (sigs @ [table ! nat t]) = Inr out1"
    "length out1 \<le> length (sigs @ [table ! nat t]) + length ts"
    by (metis list.set_intros(2))
  from Cons obtain out2 where o2: "beta_loop table ts t sigs = Inr out2"
    "length out2 \<le> length sigs + length ts"
    by (metis list.set_intros(2))
  show ?case
    using idx o1 o2 by (cases "t = last_t") (auto simp: and_then_def)
qed

lemma beta_quantiles_range:
  assumes "q \<in> set (map (\<lambda>u. 1 - u) (linspace_open 0 1 n))"
  shows "0 < q \<and> q \<le> 1"
proof -
  from assms obtain i where i: "i < n" "q = 1 - real i / real n"
    by (auto simp: linspace_open_def)
  then have "real i / real n < 1" "0 \<le> real i / real n" by auto
  with i show ?thesis by simp
qed

text \<open>
  C9. For a non-empty sigma table of the host model, and a quantile function with values
  in \<open>[0, 1]\<close> (as the Beta quantile function has for valid shape parameters), the beta
  generator returns, for every step count, at most \<open>n + 1\<close> values, the last of which
  is \<open>0\<close>.
\<close>

theorem beta_scheduler_length_and_terminator:
  assumes "inner_model_sigmas \<noteq> []"
    and "\<forall>q. 0 < q \<and> q \<le> 1 \<longrightarrow>
           0 \<le> ppf q (beta_dist_alpha opt) (beta_dist_beta opt)
           \<and> ppf q (beta_dist_alpha opt) (beta_dist_beta opt) \<le> 1"
  shows "\<exists>sigs. beta_scheduler ppf opt n sigma_min sigma_max inner_model_sigmas = Inr sigs
           \<and> length sigs \<le> n + 1 \<and> last sigs = 0"
proof -
  define total where "total = int (length inner_model_sigmas) - 1"
  define ts where "ts = map (\<lambda>q. rint (ppf q (beta_dist_alpha opt) (beta_dist_beta opt) * of_int total))
                          (map (\<lambda>u. 1 - u) (linspace_open 0 1 n))"
  have total0: "0 \<le> total" using assms(1) by (cases inner_model_sigmas) (auto simp: total_def)
  have rng: "\<forall>t\<in>set ts. 0 \<le> t \<and> t < int (length inner_model_sigmas)"
  proof
    fix t assume "t \<in> set ts"
    then obtain q where q: "q \<in> set (map (\<lambda>u. 1 - u) (linspace_open 0 1 n))"
      "t = rint (ppf q (beta_dist_alpha opt) (beta_dist_beta opt) * of_int total)"
      unfolding ts_def by auto
    define p where "p = ppf q (beta_dist_alpha opt) (beta_dist_beta opt)"
    have p: "0 \<le> p" "p \<le> 1" using assms(2) beta_quantiles_range[OF q(1)] by (auto simp: p_def)
    have "0 \<le> p * of_int total" using p(1) total0 by simp
    moreover have "p * of_int total \<le> 1 * of_int total"
      using p(2) total0 by (intro mult_right_mono) auto
    ultimately have "0 \<le> rint (p * of_int total) \<and> rint (p * of_int total) \<le> total"
      by (intro rint_range) auto
    then show "0 \<le> t \<and> t < int (length inner_model_sigmas)"
      using q(2) by (simp add: p_def total_def)
  qed
  have len: "length ts = n" by (simp add: ts_def linspace_open_def)
  from beta_loop_returns[OF rng, of "- 1" "[]"] obtain out
    where out: "beta_loop inner_model_sigmas ts (- 1) [] = Inr out" "length out \<le> length ts"
    by auto
  have "beta_scheduler ppf opt n sigma_min sigma_max inner_model_sigmas = Inr (out @ [0])"
    using out(1) by (simp add: beta_scheduler_def Let_def ts_def total_def and_then_def)
  then show ?thesis using out(2) len by simp
qed

text \<open>
  The statement of C9 for the table \<open>3, 2, 1\<close>, two steps and the quantile function of
  the uniform distribution \<open>Beta(1, 1)\<close>, which is the identity.
\<close>

theorem beta_scheduler_length_and_terminator_witness:
  "[3, 2, 1] \<noteq> ([] :: real list)
   \<and> (\<exists>sigs. beta_scheduler (\<lambda>q a b. q) sample_opts 2 1 2 [3, 2, 1] = Inr sigs
          \<and> length sigs \<le> 2 + 1 \<and> last sigs = 0)"
  using beta_scheduler_length_and_terminator[of "[3, 2, 1]" "\<lambda>q a b. q" sample_opts 2 1 2] by simp

lemma beta_example:
  "beta_scheduler (\<lambda>q a b. q) sample_opts 2 1 2 [3, 2, 1] = Inr [1, 2, 0]"
  by (simp add: beta_scheduler_def linspace_open_def rint_def py_index_def and_then_def
      upt_rec numeral_2_eq_2 Let_def)

subsection \<open>Length, first and last value of the self-contained generators\<close>

















lemma sinusoidal_family_length:
  "length (get_sigmas_sinusoidal_sf opt n sigma_min sigma_max) = n
   \<and> length (get_sigmas_invcosinusoidal_sf opt n sigma_min sigma_max) = n
   \<and> length (get_sigmas_react_cosinusoidal_dynsf opt n sigma_min sigma_max) = n"
  by (simp add: get_sigmas_sinusoidal_sf_def get_sigmas_invcosinusoidal_sf_def
      get_sigmas_react_cosinusoidal_dynsf_def length_linspace Let_def)




end
